theory Spec2Isabelle
  imports Main "HOL-Library.AList" "HOL-Library.Multiset"
begin

section \<open>Go standard library functions used by the repository\<close>

text \<open>
  Go strings are byte sequences; they are modelled as \<^typ>\<open>string\<close> (a list of
  \<^typ>\<open>char\<close>, one per byte). The functions of this section belong to the Go
  standard library (packages \<^verbatim>\<open>strings\<close> and \<^verbatim>\<open>path/filepath\<close> on a Unix
  target, where the separator is the slash); the repository calls them.
\<close>

definition Separator :: char where
  "Separator = CHR ''/''"

text \<open>\<^verbatim>\<open>strings.HasPrefix(s, prefix)\<close>: \<^verbatim>\<open>len(s) >= len(prefix) && s[:len(prefix)] == prefix\<close>.\<close>

definition HasPrefix :: "string \<Rightarrow> string \<Rightarrow> bool" where
  "HasPrefix s p = (length p \<le> length s \<and> take (length p) s = p)"

text \<open>
  \<^verbatim>\<open>strings.Split(s, sep)\<close> for a separator of one byte: all the pieces between
  separators, so the empty string gives one empty piece.
\<close>

fun splitOn :: "char \<Rightarrow> string \<Rightarrow> string list" where
  "splitOn c [] = [[]]"
| "splitOn c (x # xs) =
     (if x = c then [] # splitOn c xs
      else (case splitOn c xs of
              [] \<Rightarrow> [[x]]
            | w # ws \<Rightarrow> (x # w) # ws))"

text \<open>\<^verbatim>\<open>strings.Join(elems, sep)\<close>.\<close>

fun JoinStrings :: "string list \<Rightarrow> string \<Rightarrow> string" where
  "JoinStrings [] sep = []"
| "JoinStrings [e] sep = e"
| "JoinStrings (e # es) sep = e @ sep @ JoinStrings es sep"

text \<open>
  \<^verbatim>\<open>filepath.Clean\<close>, element by element. The elements kept so far are held in
  reverse. An empty element and \<^verbatim>\<open>.\<close> are dropped; \<^verbatim>\<open>..\<close> removes the last
  real element, is dropped at the root of a rooted path, and is kept at the start
  of a relative one.
\<close>

definition cleanStep :: "bool \<Rightarrow> string \<Rightarrow> string list \<Rightarrow> string list" where
  "cleanStep rooted e st =
     (if e = [] \<or> e = ''.'' then st
      else if e = ''..'' then
        (case st of
           [] \<Rightarrow> if rooted then [] else [''..'']
         | t # ts \<Rightarrow> if t \<noteq> ''..'' then ts else if rooted then st else e # st)
      else e # st)"

definition Clean :: "string \<Rightarrow> string" where
  "Clean path =
     (if path = [] then ''.''
      else
        let rooted = (hd path = Separator);
            st = fold (cleanStep rooted) (splitOn Separator path) [];
            body = JoinStrings (rev st) [Separator]
        in if rooted then Separator # body
           else if body = [] then ''.'' else body)"

text \<open>
  \<^verbatim>\<open>filepath.Join(elem...)\<close>: the leading empty elements are ignored, the rest is
  joined with the separator and cleaned; with no non-empty element the result is
  the empty string.
\<close>

definition Join :: "string list \<Rightarrow> string" where
  "Join elem =
     (case dropWhile (\<lambda>e. e = []) elem of
        [] \<Rightarrow> []
      | es \<Rightarrow> Clean (JoinStrings es [Separator]))"

text \<open>\<^verbatim>\<open>strings.HasSuffix(s, suffix)\<close>.\<close>

definition HasSuffix :: "string \<Rightarrow> string \<Rightarrow> bool" where
  "HasSuffix s suffix =
     (length suffix \<le> length s \<and> drop (length s - length suffix) s = suffix)"

text \<open>
  \<^verbatim>\<open>strings.TrimSpace\<close> removes the leading and the trailing white space, as Unicode
  defines it, rune by rune. \<open>spaceRunes\<close> lists the UTF-8 encodings of the runes
  for which \<^verbatim>\<open>unicode.IsSpace\<close> holds: the six ASCII ones, U+0085, U+00A0, U+1680,
  U+2000 to U+200A, U+2028, U+2029, U+202F, U+205F and U+3000. A rune is decoded
  from its own bytes only, so a string starts (ends) with a space rune exactly
  when one of these encodings is a prefix (suffix) of it.
\<close>

definition spaceRunes :: "string list" where
  "spaceRunes =
     [[CHR 0x09], [CHR 0x0A], [CHR 0x0B], [CHR 0x0C], [CHR 0x0D], [CHR 0x20],
      [CHR 0xC2, CHR 0x85], [CHR 0xC2, CHR 0xA0],
      [CHR 0xE1, CHR 0x9A, CHR 0x80],
      [CHR 0xE2, CHR 0x80, CHR 0x80], [CHR 0xE2, CHR 0x80, CHR 0x81],
      [CHR 0xE2, CHR 0x80, CHR 0x82], [CHR 0xE2, CHR 0x80, CHR 0x83],
      [CHR 0xE2, CHR 0x80, CHR 0x84], [CHR 0xE2, CHR 0x80, CHR 0x85],
      [CHR 0xE2, CHR 0x80, CHR 0x86], [CHR 0xE2, CHR 0x80, CHR 0x87],
      [CHR 0xE2, CHR 0x80, CHR 0x88], [CHR 0xE2, CHR 0x80, CHR 0x89],
      [CHR 0xE2, CHR 0x80, CHR 0x8A],
      [CHR 0xE2, CHR 0x80, CHR 0xA8], [CHR 0xE2, CHR 0x80, CHR 0xA9],
      [CHR 0xE2, CHR 0x80, CHR 0xAF],
      [CHR 0xE2, CHR 0x81, CHR 0x9F],
      [CHR 0xE3, CHR 0x80, CHR 0x80]]"

lemma spaceRunes_nonempty: "r \<in> set spaceRunes \<Longrightarrow> r \<noteq> []"
  unfolding spaceRunes_def by auto

function trimLeftSpace :: "string \<Rightarrow> string" where
  "trimLeftSpace s =
     (case find (HasPrefix s) spaceRunes of
        None \<Rightarrow> s
      | Some r \<Rightarrow> trimLeftSpace (drop (length r) s))"
  by pat_completeness auto
termination
proof (relation "measure length")
  show "wf (measure length)" by simp
next
  fix s :: string and r
  assume "find (HasPrefix s) spaceRunes = Some r"
  then have "r \<in> set spaceRunes" "HasPrefix s r"
    by (auto simp: find_Some_iff)
  then have "r \<noteq> []" "length r \<le> length s"
    by (auto simp: spaceRunes_nonempty HasPrefix_def)
  then show "(drop (length r) s, s) \<in> measure length" by (cases r) auto
qed

declare trimLeftSpace.simps [simp del]

function trimRightSpace :: "string \<Rightarrow> string" where
  "trimRightSpace s =
     (case find (HasSuffix s) spaceRunes of
        None \<Rightarrow> s
      | Some r \<Rightarrow> trimRightSpace (take (length s - length r) s))"
  by pat_completeness auto
termination
proof (relation "measure length")
  show "wf (measure length)" by simp
next
  fix s :: string and r
  assume "find (HasSuffix s) spaceRunes = Some r"
  then have "r \<in> set spaceRunes" "HasSuffix s r"
    by (auto simp: find_Some_iff)
  then have "r \<noteq> []" "length r \<le> length s"
    by (auto simp: spaceRunes_nonempty HasSuffix_def)
  then show "(take (length s - length r) s, s) \<in> measure length" by (cases r) auto
qed

declare trimRightSpace.simps [simp del]

definition TrimSpace :: "string \<Rightarrow> string" where
  "TrimSpace s = trimRightSpace (trimLeftSpace s)"

subsection \<open>Errors and external commands\<close>

text \<open>
  A Go \<^verbatim>\<open>error\<close> is its message. \<open>Errorf msg err\<close> is \<^verbatim>\<open>fmt.Errorf(msg + "%w", err)\<close>:
  the message of the cause follows the prefix.
\<close>

datatype error = Error string

fun message :: "error \<Rightarrow> string" where
  "message (Error msg) = msg"

definition Errorf :: "string \<Rightarrow> error \<Rightarrow> error" where
  "Errorf msg err = Error (msg @ message err)"

text \<open>
  A child process (\<^verbatim>\<open>exec.Command(name, args...)\<close> run in a directory) is a
  parameter of the model: given the directory, the program and its arguments it
  returns the bytes the process wrote and the error, if any, as \<^verbatim>\<open>cmd.Output\<close> and
  \<^verbatim>\<open>cmd.CombinedOutput\<close> do.
\<close>

type_synonym exec = "string \<Rightarrow> string \<Rightarrow> string list \<Rightarrow> string \<times> error option"

section \<open>Package git: modules affected by a change set\<close>

subsection \<open>\<^verbatim>\<open>sortByLengthDesc\<close>\<close>

text \<open>
  The two nested index loops of \<^verbatim>\<open>sortByLengthDesc\<close>. \<open>sortInner i j strs\<close> is the
  inner loop from index \<open>j\<close> on, \<open>sortOuter i strs\<close> the outer loop from index \<open>i\<close>
  on; the slice is passed and returned instead of being updated in place. The
  indices read are always in range (\<open>i < j < length strs\<close>).
\<close>

function sortInner :: "nat \<Rightarrow> nat \<Rightarrow> string list \<Rightarrow> string list" where
  "sortInner i j strs =
     (if j < length strs then
        sortInner i (Suc j)
          (if length (strs ! j) > length (strs ! i)
           then strs[i := strs ! j, j := strs ! i]
           else strs)
      else strs)"
  by pat_completeness auto
termination
  by (relation "measure (\<lambda>(i, j, strs). length strs - j)") auto

declare sortInner.simps [simp del]

lemma length_sortInner: "length (sortInner i j strs) = length strs"
proof (induction i j strs rule: sortInner.induct)
  case (1 i j strs)
  show ?case
  proof (cases "j < length strs")
    case True
    with 1 show ?thesis by (subst sortInner.simps) simp
  next
    case False
    then show ?thesis by (subst sortInner.simps) simp
  qed
qed

function sortOuter :: "nat \<Rightarrow> string list \<Rightarrow> string list" where
  "sortOuter i strs =
     (if Suc i < length strs then sortOuter (Suc i) (sortInner i (Suc i) strs)
      else strs)"
  by pat_completeness auto
termination
  by (relation "measure (\<lambda>(i, strs). length strs - i)") (simp_all add: length_sortInner)

declare sortOuter.simps [simp del]

definition sortByLengthDesc :: "string list \<Rightarrow> string list" where
  "sortByLengthDesc strs = sortOuter 0 strs"

subsection \<open>\<^verbatim>\<open>FindAffectedModuleDirs\<close>\<close>

text \<open>The test of the inner loop: the file is the directory or lies below it.\<close>

definition belongs :: "string \<Rightarrow> string \<Rightarrow> bool" where
  "belongs absFile modDir =
     (HasPrefix absFile (modDir @ [Separator]) \<or> absFile = modDir)"

text \<open>The inner loop with its \<^verbatim>\<open>break\<close>: the first directory that passes the test.\<close>

fun firstMatch :: "string \<Rightarrow> string list \<Rightarrow> string option" where
  "firstMatch absFile [] = None"
| "firstMatch absFile (modDir # rest) =
     (if belongs absFile modDir then Some modDir else firstMatch absFile rest)"

text \<open>
  The body of the loop over the changed files: the directory that a changed file
  is recorded under, if any.
\<close>

definition fileOwner :: "string list \<Rightarrow> string \<Rightarrow> string \<Rightarrow> string option" where
  "fileOwner sortedDirs workspaceRoot file =
     firstMatch (Join [workspaceRoot, file]) sortedDirs"

text \<open>
  The map \<^verbatim>\<open>affectedDirs\<close> is an association list: \<^const>\<open>AList.update\<close> overwrites
  the entry of a key that is present and appends a new key otherwise, so a key
  occurs once. Go iterates over a map in an unspecified order; the model lists
  the keys in the order of their insertion, and the theorems below speak of
  membership and multiplicity only.
\<close>

fun affectedLoop ::
  "string list \<Rightarrow> string \<Rightarrow> string list \<Rightarrow> (string \<times> bool) list \<Rightarrow> (string \<times> bool) list" where
  "affectedLoop sortedDirs workspaceRoot [] affectedDirs = affectedDirs"
| "affectedLoop sortedDirs workspaceRoot (file # files) affectedDirs =
     affectedLoop sortedDirs workspaceRoot files
       (case fileOwner sortedDirs workspaceRoot file of
          None \<Rightarrow> affectedDirs
        | Some modDir \<Rightarrow> AList.update modDir True affectedDirs)"

definition FindAffectedModuleDirs :: "string list \<Rightarrow> string list \<Rightarrow> string \<Rightarrow> string list" where
  "FindAffectedModuleDirs changedFiles moduleDirs workspaceRoot =
     map fst (affectedLoop (sortByLengthDesc moduleDirs) workspaceRoot changedFiles [])"

subsection \<open>\<^verbatim>\<open>GetChangedFiles\<close>\<close>

definition getMergeBase :: "exec \<Rightarrow> string \<Rightarrow> string \<Rightarrow> error + string" where
  "getMergeBase run ref dir =
     (case run dir ''git'' [''merge-base'', ref, ''HEAD''] of
        (output, Some err) \<Rightarrow> Inl (Errorf ''git merge-base failed: '' err)
      | (output, None) \<Rightarrow> Inr (TrimSpace output))"

text \<open>
  The last step of \<^verbatim>\<open>GetChangedFiles\<close>: the output of \<^verbatim>\<open>git diff --name-only\<close> is
  trimmed and split at the line feeds.
\<close>

definition splitChangedFiles :: "string \<Rightarrow> string list" where
  "splitChangedFiles output =
     (let trimmed = TrimSpace output
      in if trimmed = [] then [] else splitOn (CHR 0x0A) trimmed)"

definition GetChangedFiles :: "exec \<Rightarrow> string \<Rightarrow> bool \<Rightarrow> string \<Rightarrow> error + string list" where
  "GetChangedFiles run compareRef useMergeBase dir =
     (case (if useMergeBase then
              (case getMergeBase run compareRef dir of
                 Inl err \<Rightarrow> Inl (Errorf ''failed to get merge-base: '' err)
               | Inr mergeBase \<Rightarrow> Inr [''diff'', ''--name-only'', mergeBase])
            else Inr [''diff'', ''--name-only'', compareRef]) of
        Inl err \<Rightarrow> Inl err
      | Inr args \<Rightarrow>
          (case run dir ''git'' args of
             (output, Some err) \<Rightarrow> Inl (Errorf ''error executing git diff: '' err)
           | (output, None) \<Rightarrow> Inr (splitChangedFiles output)))"

text \<open>Sorted by length, longest first: what \<^verbatim>\<open>sortByLengthDesc\<close> is to establish.\<close>

definition byLengthDesc :: "string list \<Rightarrow> bool" where
  "byLengthDesc strs = sorted_wrt (\<lambda>a b. length b \<le> length a) strs"

text \<open>
  A sample \<^verbatim>\<open>git\<close>: the merge base of \<^verbatim>\<open>main\<close> is \<^verbatim>\<open>c1\<close>, two files differ from
  \<^verbatim>\<open>c1\<close>, nothing differs from \<^verbatim>\<open>HEAD\<close>, and every other command fails.
\<close>

definition sampleGit :: exec where
  "sampleGit dir name args =
     (if args = [''merge-base'', ''main'', ''HEAD''] then ([CHR ''c'', CHR ''1'', CHR 0x0A], None)
      else if args = [''diff'', ''--name-only'', ''c1'']
        then ([CHR ''a'', CHR ''/'', CHR ''x'', CHR 0x0A, CHR ''b'', CHR 0x0A], None)
      else if args = [''diff'', ''--name-only'', ''HEAD''] then ([CHR 0x20, CHR 0x0A], None)
      else ([], Some (Error ''exit status 128'')))"


section \<open>Properties of package git\<close>

subsection \<open>The sort\<close>

lemma mset_sortInner: "i < j \<Longrightarrow> mset (sortInner i j strs) = mset strs"
proof (induction i j strs rule: sortInner.induct)
  case (1 i j strs)
  show ?case
  proof (cases "j < length strs")
    case True
    with 1 show ?thesis
      by (subst sortInner.simps) (simp add: mset_swap)
  next
    case False
    then show ?thesis by (subst sortInner.simps) simp
  qed
qed

lemma take_sortInner: "i < j \<Longrightarrow> take i (sortInner i j strs) = take i strs"
proof (induction i j strs rule: sortInner.induct)
  case (1 i j strs)
  show ?case
  proof (cases "j < length strs")
    case True
    with 1 show ?thesis
      by (subst sortInner.simps) simp
  next
    case False
    then show ?thesis by (subst sortInner.simps) simp
  qed
qed

lemma sortInner_head_longest:
  "i < j \<Longrightarrow>
   \<forall>k. i < k \<and> k < j \<and> k < length strs \<longrightarrow> length (strs ! k) \<le> length (strs ! i) \<Longrightarrow>
   i < q \<Longrightarrow> q < length strs \<Longrightarrow>
   length (sortInner i j strs ! q) \<le> length (sortInner i j strs ! i)"
proof (induction i j strs rule: sortInner.induct)
  case (1 i j strs)
  show ?case
  proof (cases "j < length strs")
    case True
    let ?s = "if length (strs ! j) > length (strs ! i)
              then strs[i := strs ! j, j := strs ! i] else strs"
    have len: "length ?s = length strs" by simp
    have inv: "\<forall>k. i < k \<and> k < Suc j \<and> k < length ?s \<longrightarrow> length (?s ! k) \<le> length (?s ! i)"
      using 1(3) 1(2) True by (auto simp: nth_list_update less_Suc_eq)
    have "length (sortInner i (Suc j) ?s ! q) \<le> length (sortInner i (Suc j) ?s ! i)"
      using 1(1)[OF True _ inv] 1(2) 1(4) 1(5) len by simp
    with True show ?thesis by (subst (1 2) sortInner.simps) simp
  next
    case False
    with 1 show ?thesis by (subst (1 2) sortInner.simps) simp
  qed
qed


lemma drop_sortInner:
  assumes ij: "i < j"
  shows "mset (drop i (sortInner i j strs)) = mset (drop i strs)"
proof -
  let ?r = "sortInner i j strs"
  have e1: "mset ?r = mset (take i ?r) + mset (drop i ?r)"
    by (metis append_take_drop_id mset_append)
  have e2: "mset strs = mset (take i strs) + mset (drop i strs)"
    by (metis append_take_drop_id mset_append)
  have "mset (take i strs) + mset (drop i ?r) = mset (take i strs) + mset (drop i strs)"
    using e1 e2 mset_sortInner[OF ij, of strs] take_sortInner[OF ij, of strs] by simp
  then show ?thesis by simp
qed

lemma mset_sortOuter: "mset (sortOuter i strs) = mset strs"
proof (induction i strs rule: sortOuter.induct)
  case (1 i strs)
  show ?case
  proof (cases "Suc i < length strs")
    case True
    with 1 show ?thesis by (subst sortOuter.simps) (simp add: mset_sortInner)
  next
    case False
    then show ?thesis by (subst sortOuter.simps) simp
  qed
qed

lemma sortOuter_sorted:
  "byLengthDesc (take i strs) \<Longrightarrow>
   \<forall>a \<in> set (take i strs). \<forall>b \<in> set (drop i strs). length b \<le> length a \<Longrightarrow>
   byLengthDesc (sortOuter i strs)"
proof (induction i strs rule: sortOuter.induct)
  case (1 i strs)
  show ?case
  proof (cases "Suc i < length strs")
    case True
    let ?r = "sortInner i (Suc i) strs"
    have len: "length ?r = length strs" by (rule length_sortInner)
    have tk: "take i ?r = take i strs" by (simp add: take_sortInner)
    have dr: "set (drop i ?r) = set (drop i strs)"
      using drop_sortInner[of i "Suc i" strs] by (metis lessI set_mset_mset)
    have ri: "?r ! i \<in> set (drop i ?r)"
      using True len by (metis Cons_nth_drop_Suc Suc_lessD list.set_intros(1))
    have tkS: "take (Suc i) ?r = take i strs @ [?r ! i]"
      using True len tk by (simp add: take_Suc_conv_app_nth)
    have hd_ge: "\<forall>b \<in> set (drop (Suc i) ?r). length b \<le> length (?r ! i)"
    proof
      fix b assume "b \<in> set (drop (Suc i) ?r)"
      then obtain q where q: "q < length ?r - Suc i" "b = drop (Suc i) ?r ! q"
        by (metis in_set_conv_nth length_drop)
      then have b: "b = ?r ! (Suc i + q)" by simp
      have "length (?r ! (Suc i + q)) \<le> length (?r ! i)"
        using q(1) len by (intro sortInner_head_longest) auto
      with b show "length b \<le> length (?r ! i)" by simp
    qed
    have sub: "set (drop (Suc i) ?r) \<subseteq> set (drop i strs)"
      using dr by (metis set_drop_subset_set_drop Suc_n_not_le_n nat_le_linear)
    have s1: "byLengthDesc (take (Suc i) ?r)"
      using 1(2) 1(3) ri dr unfolding tkS byLengthDesc_def
      by (auto simp: sorted_wrt_append)
    have s2: "\<forall>a \<in> set (take (Suc i) ?r). \<forall>b \<in> set (drop (Suc i) ?r). length b \<le> length a"
      using 1(3) hd_ge sub unfolding tkS by auto
    have "byLengthDesc (sortOuter (Suc i) ?r)"
      using 1(1)[OF True s1 s2] .
    with True show ?thesis by (subst sortOuter.simps) simp
  next
    case False
    then have short: "length (drop i strs) \<le> 1" by simp
    then have "byLengthDesc (drop i strs)"
      unfolding byLengthDesc_def by (cases "drop i strs") auto
    then have "byLengthDesc (take i strs @ drop i strs)"
      using 1(2) 1(3) unfolding byLengthDesc_def sorted_wrt_append by blast
    then have "byLengthDesc strs" by simp
    with False show ?thesis by (subst sortOuter.simps) simp
  qed
qed

lemma sortByLengthDesc_sorted: "byLengthDesc (sortByLengthDesc strs)"
  unfolding sortByLengthDesc_def by (rule sortOuter_sorted) (simp_all add: byLengthDesc_def)

lemma sortByLengthDesc_mset: "mset (sortByLengthDesc strs) = mset strs"
  unfolding sortByLengthDesc_def by (rule mset_sortOuter)

lemma sortByLengthDesc_set: "set (sortByLengthDesc strs) = set strs"
  using sortByLengthDesc_mset by (metis set_mset_mset)

subsection \<open>Ownership of a changed file\<close>

lemma belongs_iff:
  "belongs absFile modDir = (absFile = modDir \<or> (\<exists>rest. absFile = modDir @ [Separator] @ rest))"
proof -
  have "HasPrefix absFile (modDir @ [Separator]) = (\<exists>rest. absFile = modDir @ [Separator] @ rest)"
  proof
    assume h: "HasPrefix absFile (modDir @ [Separator])"
    then have "absFile = (modDir @ [Separator]) @ drop (length (modDir @ [Separator])) absFile"
      unfolding HasPrefix_def by (metis append_take_drop_id)
    then show "\<exists>rest. absFile = modDir @ [Separator] @ rest" by (metis append_assoc)
  next
    assume "\<exists>rest. absFile = modDir @ [Separator] @ rest"
    then show "HasPrefix absFile (modDir @ [Separator])"
      unfolding HasPrefix_def by auto
  qed
  then show ?thesis unfolding belongs_def by blast
qed

lemma belongs_take: "belongs absFile modDir \<Longrightarrow> take (length modDir) absFile = modDir"
  unfolding belongs_iff by auto

lemma belongs_same_length:
  "belongs absFile d \<Longrightarrow> belongs absFile d' \<Longrightarrow> length d = length d' \<Longrightarrow> d = d'"
  by (metis belongs_take)

lemma firstMatch_None: "(firstMatch absFile dirs = None) = (\<forall>d \<in> set dirs. \<not> belongs absFile d)"
  by (induction dirs) auto

lemma firstMatch_Some:
  "firstMatch absFile dirs = Some d \<Longrightarrow> d \<in> set dirs \<and> belongs absFile d"
  by (induction dirs) (auto split: if_splits)

lemma firstMatch_longest:
  "byLengthDesc dirs \<Longrightarrow> firstMatch absFile dirs = Some d \<Longrightarrow>
   d' \<in> set dirs \<Longrightarrow> belongs absFile d' \<Longrightarrow> length d' \<le> length d"
proof (induction dirs)
  case Nil
  then show ?case by simp
next
  case (Cons a dirs)
  show ?case
  proof (cases "belongs absFile a")
    case True
    with Cons.prems show ?thesis by (auto simp: byLengthDesc_def)
  next
    case False
    with Cons show ?thesis by (auto simp: byLengthDesc_def)
  qed
qed

lemma firstMatch_sorted_iff:
  assumes "byLengthDesc dirs"
  shows "(firstMatch absFile dirs = Some d) =
         (d \<in> set dirs \<and> belongs absFile d \<and>
          (\<forall>d' \<in> set dirs. belongs absFile d' \<longrightarrow> d' = d \<or> length d' < length d))"
proof
  assume fm: "firstMatch absFile dirs = Some d"
  show "d \<in> set dirs \<and> belongs absFile d \<and>
        (\<forall>d' \<in> set dirs. belongs absFile d' \<longrightarrow> d' = d \<or> length d' < length d)"
  proof (intro conjI ballI impI)
    show "d \<in> set dirs" "belongs absFile d" using firstMatch_Some[OF fm] by simp_all
  next
    fix d' assume d': "d' \<in> set dirs" "belongs absFile d'"
    have "length d' \<le> length d" using firstMatch_longest[OF assms fm d'] .
    moreover have "length d' = length d \<Longrightarrow> d' = d"
      using belongs_same_length d'(2) firstMatch_Some[OF fm] by blast
    ultimately show "d' = d \<or> length d' < length d" by linarith
  qed
next
  assume r: "d \<in> set dirs \<and> belongs absFile d \<and>
        (\<forall>d' \<in> set dirs. belongs absFile d' \<longrightarrow> d' = d \<or> length d' < length d)"
  then obtain e where e: "firstMatch absFile dirs = Some e"
    using firstMatch_None[of absFile dirs] by (cases "firstMatch absFile dirs") auto
  have "length d \<le> length e" using firstMatch_longest[OF assms e] r by blast
  moreover have "e = d \<or> length e < length d" using r firstMatch_Some[OF e] by blast
  ultimately have "e = d" by linarith
  with e show "firstMatch absFile dirs = Some d" by simp
qed

lemma fileOwner_longest:
  "(fileOwner (sortByLengthDesc moduleDirs) workspaceRoot file = Some d) =
   (d \<in> set moduleDirs \<and> belongs (Join [workspaceRoot, file]) d \<and>
    (\<forall>d' \<in> set moduleDirs. belongs (Join [workspaceRoot, file]) d' \<longrightarrow>
        d' = d \<or> length d' < length d))"
  unfolding fileOwner_def
  using firstMatch_sorted_iff[OF sortByLengthDesc_sorted, of "Join [workspaceRoot, file]" moduleDirs d]
  by (simp add: sortByLengthDesc_set)

lemma set_affectedLoop:
  "fst ` set (affectedLoop sortedDirs root files m) =
   fst ` set m \<union> {d. \<exists>f \<in> set files. fileOwner sortedDirs root f = Some d}"
proof (induction files arbitrary: m)
  case Nil
  then show ?case by simp
next
  case (Cons f files)
  show ?case
  proof (cases "fileOwner sortedDirs root f")
    case None
    then show ?thesis using Cons[of m] by auto
  next
    case (Some d)
    then show ?thesis using Cons[of "AList.update d True m"] by (auto simp: dom_update)
  qed
qed

lemma distinct_affectedLoop:
  "distinct (map fst m) \<Longrightarrow> distinct (map fst (affectedLoop sortedDirs root files m))"
proof (induction files arbitrary: m)
  case Nil
  then show ?case by simp
next
  case (Cons f files)
  then show ?case by (cases "fileOwner sortedDirs root f") (simp_all add: distinct_update)
qed

lemma FindAffectedModuleDirs_set:
  "set (FindAffectedModuleDirs changedFiles moduleDirs workspaceRoot) =
   {d. \<exists>f \<in> set changedFiles. fileOwner (sortByLengthDesc moduleDirs) workspaceRoot f = Some d}"
  unfolding FindAffectedModuleDirs_def using set_affectedLoop[of _ _ _ "[]"] by simp

lemma FindAffectedModuleDirs_distinct:
  "distinct (FindAffectedModuleDirs changedFiles moduleDirs workspaceRoot)"
  unfolding FindAffectedModuleDirs_def by (rule distinct_affectedLoop) simp

text \<open>
  Claim C2. A changed file is recorded under the longest module directory that
  passes the test of \<^verbatim>\<open>FindAffectedModuleDirs\<close> on the file's absolute path (the
  path equals the directory or continues it after a separator): every other
  directory that passes is strictly shorter, so a file of a nested module is
  recorded under the nested module and not under an ancestor. The directories
  returned are exactly those some changed file is recorded under. With the
  changed files \<^verbatim>\<open>mod/a/x.go\<close> and \<^verbatim>\<open>mod/a/sub/y.go\<close> and the directories \<^verbatim>\<open>mod/a\<close>
  and \<^verbatim>\<open>mod/a/sub\<close> the first file goes to \<^verbatim>\<open>mod/a\<close> and the second to
  \<^verbatim>\<open>mod/a/sub\<close>.
\<close>

theorem C2_longest_prefix_ownership:
  "(fileOwner (sortByLengthDesc moduleDirs) workspaceRoot file = Some d) =
     (d \<in> set moduleDirs \<and> belongs (Join [workspaceRoot, file]) d \<and>
      (\<forall>d' \<in> set moduleDirs. belongs (Join [workspaceRoot, file]) d' \<longrightarrow>
          d' = d \<or> length d' < length d))
   \<and> set (FindAffectedModuleDirs changedFiles moduleDirs workspaceRoot) =
       {m. \<exists>f \<in> set changedFiles.
              fileOwner (sortByLengthDesc moduleDirs) workspaceRoot f = Some m}
   \<and> fileOwner (sortByLengthDesc [''mod/a'', ''mod/a/sub'']) [] ''mod/a/x.go'' = Some ''mod/a''
   \<and> fileOwner (sortByLengthDesc [''mod/a'', ''mod/a/sub'']) [] ''mod/a/sub/y.go''
       = Some ''mod/a/sub''"
proof (intro conjI)
  show "(fileOwner (sortByLengthDesc moduleDirs) workspaceRoot file = Some d) =
     (d \<in> set moduleDirs \<and> belongs (Join [workspaceRoot, file]) d \<and>
      (\<forall>d' \<in> set moduleDirs. belongs (Join [workspaceRoot, file]) d' \<longrightarrow>
          d' = d \<or> length d' < length d))"
    by (rule fileOwner_longest)
  show "set (FindAffectedModuleDirs changedFiles moduleDirs workspaceRoot) =
       {m. \<exists>f \<in> set changedFiles.
              fileOwner (sortByLengthDesc moduleDirs) workspaceRoot f = Some m}"
    by (rule FindAffectedModuleDirs_set)
  show "fileOwner (sortByLengthDesc [''mod/a'', ''mod/a/sub'']) [] ''mod/a/x.go'' = Some ''mod/a''"
    by code_simp
  show "fileOwner (sortByLengthDesc [''mod/a'', ''mod/a/sub'']) [] ''mod/a/sub/y.go''
       = Some ''mod/a/sub''"
    by code_simp
qed

text \<open>
  The theorem at a workspace rooted at \<^verbatim>\<open>/ws\<close>: the file of the nested module
  passes the test of both directories and is recorded under the longer one.
\<close>

theorem C2_longest_prefix_ownership_witness:
  "fileOwner (sortByLengthDesc [''/ws/mod/a'', ''/ws/mod/a/sub'']) ''/ws'' ''mod/a/sub/y.go''
     = Some ''/ws/mod/a/sub''
   \<and> ''/ws/mod/a/sub'' \<in> set [''/ws/mod/a'', ''/ws/mod/a/sub'']
   \<and> belongs (Join [''/ws'', ''mod/a/sub/y.go'']) ''/ws/mod/a/sub''
   \<and> belongs (Join [''/ws'', ''mod/a/sub/y.go'']) ''/ws/mod/a''
   \<and> length ''/ws/mod/a'' < length ''/ws/mod/a/sub''
   \<and> set (FindAffectedModuleDirs [''mod/a/x.go'', ''mod/a/sub/y.go'']
             [''/ws/mod/a'', ''/ws/mod/a/sub''] ''/ws'') = {''/ws/mod/a'', ''/ws/mod/a/sub''}"
proof -
  let ?dirs = "[''/ws/mod/a'', ''/ws/mod/a/sub'']"
  let ?abs = "Join [''/ws'', ''mod/a/sub/y.go'']"
  note t = C2_longest_prefix_ownership
    [of ?dirs "''/ws''" "''mod/a/sub/y.go''" "''/ws/mod/a/sub''" "[''mod/a/x.go'', ''mod/a/sub/y.go'']"]
  have own: "fileOwner (sortByLengthDesc ?dirs) ''/ws'' ''mod/a/sub/y.go'' = Some ''/ws/mod/a/sub''"
    by code_simp
  have outer: "belongs ?abs ''/ws/mod/a''" by code_simp
  from t own have rhs: "''/ws/mod/a/sub'' \<in> set ?dirs \<and> belongs ?abs ''/ws/mod/a/sub'' \<and>
      (\<forall>d' \<in> set ?dirs. belongs ?abs d' \<longrightarrow>
          d' = ''/ws/mod/a/sub'' \<or> length d' < length ''/ws/mod/a/sub'')"
    by blast
  then have "''/ws/mod/a'' = ''/ws/mod/a/sub'' \<or> length ''/ws/mod/a'' < length ''/ws/mod/a/sub''"
    using outer by simp
  then have shorter: "length ''/ws/mod/a'' < length ''/ws/mod/a/sub''" by simp
  have res: "set (FindAffectedModuleDirs [''mod/a/x.go'', ''mod/a/sub/y.go''] ?dirs ''/ws'')
             = {''/ws/mod/a'', ''/ws/mod/a/sub''}"
    by code_simp
  from own rhs outer shorter res show ?thesis by blast
qed

text \<open>
  Claim C8. A directory is returned only if it is one of the module directories
  and the absolute path of some changed file equals it or continues it after a
  separator; the test holds in exactly these two cases, so a directory never
  claims a path that continues it with another byte (\<^verbatim>\<open>mod/a\<close> does not claim
  \<^verbatim>\<open>mod/ab/x.go\<close>); a changed file that lies under no module directory leaves
  the result unchanged; and the result has no directory twice.
\<close>

theorem C8_separator_boundary:
  "(d \<in> set (FindAffectedModuleDirs changedFiles moduleDirs workspaceRoot) \<longrightarrow>
      d \<in> set moduleDirs \<and>
      (\<exists>f \<in> set changedFiles.
          Join [workspaceRoot, f] = d \<or>
          (\<exists>rest. Join [workspaceRoot, f] = d @ [Separator] @ rest)))
   \<and> belongs absFile modDir =
       (absFile = modDir \<or> (\<exists>rest. absFile = modDir @ [Separator] @ rest))
   \<and> (c \<noteq> Separator \<longrightarrow> \<not> belongs (modDir @ c # tail) modDir)
   \<and> ((\<forall>m \<in> set moduleDirs. \<not> belongs (Join [workspaceRoot, file]) m) \<longrightarrow>
        FindAffectedModuleDirs (file # changedFiles) moduleDirs workspaceRoot
        = FindAffectedModuleDirs changedFiles moduleDirs workspaceRoot)
   \<and> distinct (FindAffectedModuleDirs changedFiles moduleDirs workspaceRoot)
   \<and> FindAffectedModuleDirs [''mod/ab/x.go''] [''mod/a''] [] = []"
proof (intro conjI impI)
  assume "d \<in> set (FindAffectedModuleDirs changedFiles moduleDirs workspaceRoot)"
  then obtain f where f: "f \<in> set changedFiles"
      "fileOwner (sortByLengthDesc moduleDirs) workspaceRoot f = Some d"
    unfolding FindAffectedModuleDirs_set by blast
  from f(2) have "d \<in> set moduleDirs" "belongs (Join [workspaceRoot, f]) d"
    unfolding fileOwner_longest by simp_all
  then show "d \<in> set moduleDirs"
    and "\<exists>f \<in> set changedFiles.
          Join [workspaceRoot, f] = d \<or>
          (\<exists>rest. Join [workspaceRoot, f] = d @ [Separator] @ rest)"
    using f(1) unfolding belongs_iff by blast+
next
  show "belongs absFile modDir =
       (absFile = modDir \<or> (\<exists>rest. absFile = modDir @ [Separator] @ rest))"
    by (rule belongs_iff)
next
  assume "c \<noteq> Separator"
  then show "\<not> belongs (modDir @ c # tail) modDir"
    unfolding belongs_iff by simp
next
  assume none: "\<forall>m \<in> set moduleDirs. \<not> belongs (Join [workspaceRoot, file]) m"
  have "fileOwner (sortByLengthDesc moduleDirs) workspaceRoot file = None"
    unfolding fileOwner_def firstMatch_None using none by (simp add: sortByLengthDesc_set)
  then show "FindAffectedModuleDirs (file # changedFiles) moduleDirs workspaceRoot
        = FindAffectedModuleDirs changedFiles moduleDirs workspaceRoot"
    unfolding FindAffectedModuleDirs_def by simp
next
  show "distinct (FindAffectedModuleDirs changedFiles moduleDirs workspaceRoot)"
    by (rule FindAffectedModuleDirs_distinct)
next
  show "FindAffectedModuleDirs [''mod/ab/x.go''] [''mod/a''] [] = []"
    by code_simp
qed

text \<open>The theorem at one module \<^verbatim>\<open>/ws/mod/a\<close> and a changed file of its sibling \<^verbatim>\<open>mod/ab\<close>.\<close>

theorem C8_separator_boundary_witness:
  "''/ws/mod/a'' \<in> set (FindAffectedModuleDirs [''mod/a/x.go'', ''mod/a/z.go''] [''/ws/mod/a''] ''/ws'')
   \<and> Join [''/ws'', ''mod/a/x.go''] = ''/ws/mod/a'' @ [Separator] @ ''x.go''
   \<and> CHR ''b'' \<noteq> Separator
   \<and> \<not> belongs (''/ws/mod/a'' @ CHR ''b'' # ''/y.go'') ''/ws/mod/a''
   \<and> \<not> belongs (Join [''/ws'', ''mod/ab/y.go'']) ''/ws/mod/a''
   \<and> FindAffectedModuleDirs [''mod/ab/y.go'', ''mod/a/x.go'', ''mod/a/z.go''] [''/ws/mod/a''] ''/ws''
       = FindAffectedModuleDirs [''mod/a/x.go'', ''mod/a/z.go''] [''/ws/mod/a''] ''/ws''
   \<and> FindAffectedModuleDirs [''mod/a/x.go'', ''mod/a/z.go''] [''/ws/mod/a''] ''/ws'' = [''/ws/mod/a'']"
proof -
  note t = C8_separator_boundary
    [of "''/ws/mod/a''" "[''mod/a/x.go'', ''mod/a/z.go'']" "[''/ws/mod/a'']" "''/ws''"
        "Join [''/ws'', ''mod/a/x.go'']" "''/ws/mod/a''" "CHR ''b''" "''/y.go''" "''mod/ab/y.go''"]
  have res: "FindAffectedModuleDirs [''mod/a/x.go'', ''mod/a/z.go''] [''/ws/mod/a''] ''/ws''
             = [''/ws/mod/a'']"
    by code_simp
  have mem: "''/ws/mod/a'' \<in> set (FindAffectedModuleDirs [''mod/a/x.go'', ''mod/a/z.go''] [''/ws/mod/a''] ''/ws'')"
    unfolding res by simp
  have j: "Join [''/ws'', ''mod/a/x.go''] = ''/ws/mod/a'' @ [Separator] @ ''x.go''"
    by code_simp
  have c: "CHR ''b'' \<noteq> Separator" by code_simp
  have nb: "\<not> belongs (''/ws/mod/a'' @ CHR ''b'' # ''/y.go'') ''/ws/mod/a''"
    using t c by blast
  have none: "\<forall>m \<in> set [''/ws/mod/a'']. \<not> belongs (Join [''/ws'', ''mod/ab/y.go'']) m"
    by code_simp
  have skip: "FindAffectedModuleDirs [''mod/ab/y.go'', ''mod/a/x.go'', ''mod/a/z.go''] [''/ws/mod/a''] ''/ws''
       = FindAffectedModuleDirs [''mod/a/x.go'', ''mod/a/z.go''] [''/ws/mod/a''] ''/ws''"
    using t none by blast
  from none have nb2: "\<not> belongs (Join [''/ws'', ''mod/ab/y.go'']) ''/ws/mod/a''" by simp
  from mem j c nb nb2 skip res show ?thesis by blast
qed

subsection \<open>Splitting the diff output\<close>

lemma splitOn_not_Nil: "splitOn c s \<noteq> []"
  by (induction s) (auto split: list.splits)

lemma splitOn_single_empty: "(splitOn c s = [[]]) = (s = [])"
  by (cases s) (auto simp: splitOn_not_Nil split: list.splits)

lemma JoinStrings_Cons: "es \<noteq> [] \<Longrightarrow> JoinStrings (e # es) sep = e @ sep @ JoinStrings es sep"
  by (cases es) simp_all

lemma JoinStrings_splitOn: "JoinStrings (splitOn c s) [c] = s"
proof (induction s)
  case Nil
  then show ?case by simp
next
  case (Cons x xs)
  show ?case
  proof (cases "x = c")
    case True
    then show ?thesis using Cons by (simp add: JoinStrings_Cons splitOn_not_Nil)
  next
    case False
    obtain w ws where sp: "splitOn c xs = w # ws"
      using splitOn_not_Nil[of c xs] by (cases "splitOn c xs") auto
    have "JoinStrings ((x # w) # ws) [c] = x # JoinStrings (w # ws) [c]"
      by (cases ws) simp_all
    with False sp Cons show ?thesis by simp
  qed
qed

lemma splitOn_no_sep: "p \<in> set (splitOn c s) \<Longrightarrow> c \<notin> set p"
proof (induction s arbitrary: p)
  case Nil
  then show ?case by simp
next
  case (Cons x xs)
  then show ?case by (auto split: if_splits list.splits)
qed

text \<open>
  Claim C10. \<^verbatim>\<open>GetChangedFiles\<close> trims the output of \<^verbatim>\<open>git diff\<close> and splits it at
  the line feeds. The result is the empty list exactly when the trimmed output
  is empty, it is never the list that holds only the empty string, and joining
  the returned paths with line feeds gives the trimmed output back. This is what
  \<^verbatim>\<open>GetChangedFiles\<close> returns when the diff command succeeds, compared with the
  reference itself or with its merge base.
\<close>

theorem C10_changed_files_parse:
  "splitChangedFiles output =
     (if TrimSpace output = [] then [] else splitOn (CHR 0x0A) (TrimSpace output))
   \<and> (splitChangedFiles output = []) = (TrimSpace output = [])
   \<and> splitChangedFiles output \<noteq> [[]]
   \<and> JoinStrings (splitChangedFiles output) [CHR 0x0A] = TrimSpace output
   \<and> (run dir ''git'' [''diff'', ''--name-only'', compareRef] = (output, None) \<longrightarrow>
        GetChangedFiles run compareRef False dir = Inr (splitChangedFiles output))
   \<and> (getMergeBase run compareRef dir = Inr mergeBase \<and>
       run dir ''git'' [''diff'', ''--name-only'', mergeBase] = (output, None) \<longrightarrow>
        GetChangedFiles run compareRef True dir = Inr (splitChangedFiles output))"
proof (intro conjI impI)
  show "splitChangedFiles output =
     (if TrimSpace output = [] then [] else splitOn (CHR 0x0A) (TrimSpace output))"
    by (simp add: splitChangedFiles_def Let_def)
  show "(splitChangedFiles output = []) = (TrimSpace output = [])"
    by (simp add: splitChangedFiles_def Let_def splitOn_not_Nil)
  show "splitChangedFiles output \<noteq> [[]]"
    by (simp add: splitChangedFiles_def Let_def splitOn_single_empty)
  show "JoinStrings (splitChangedFiles output) [CHR 0x0A] = TrimSpace output"
    by (simp add: splitChangedFiles_def Let_def JoinStrings_splitOn)
next
  assume "run dir ''git'' [''diff'', ''--name-only'', compareRef] = (output, None)"
  then show "GetChangedFiles run compareRef False dir = Inr (splitChangedFiles output)"
    by (simp add: GetChangedFiles_def)
next
  assume "getMergeBase run compareRef dir = Inr mergeBase \<and>
       run dir ''git'' [''diff'', ''--name-only'', mergeBase] = (output, None)"
  then show "GetChangedFiles run compareRef True dir = Inr (splitChangedFiles output)"
    by (simp add: GetChangedFiles_def)
qed

text \<open>The theorem at the sample \<^verbatim>\<open>git\<close>, for both ways of comparing.\<close>

theorem C10_changed_files_parse_witness:
  "sampleGit ''/ws'' ''git'' [''diff'', ''--name-only'', ''HEAD''] = ([CHR 0x20, CHR 0x0A], None)
   \<and> GetChangedFiles sampleGit ''HEAD'' False ''/ws'' = Inr []
   \<and> getMergeBase sampleGit ''main'' ''/ws'' = Inr ''c1''
   \<and> GetChangedFiles sampleGit ''main'' True ''/ws'' = Inr [''a/x'', ''b'']"
proof -
  have d1: "sampleGit ''/ws'' ''git'' [''diff'', ''--name-only'', ''HEAD''] = ([CHR 0x20, CHR 0x0A], None)"
    by (simp add: sampleGit_def)
  have s1: "splitChangedFiles [CHR 0x20, CHR 0x0A] = []" by code_simp
  have g1: "GetChangedFiles sampleGit ''HEAD'' False ''/ws'' = Inr []"
    using C10_changed_files_parse[of "[CHR 0x20, CHR 0x0A]" sampleGit "''/ws''" "''HEAD''" "[]"] d1 s1
    by simp
  have mb: "getMergeBase sampleGit ''main'' ''/ws'' = Inr ''c1''" by code_simp
  have d2: "sampleGit ''/ws'' ''git'' [''diff'', ''--name-only'', ''c1'']
            = ([CHR ''a'', CHR ''/'', CHR ''x'', CHR 0x0A, CHR ''b'', CHR 0x0A], None)"
    by (simp add: sampleGit_def)
  have s2: "splitChangedFiles [CHR ''a'', CHR ''/'', CHR ''x'', CHR 0x0A, CHR ''b'', CHR 0x0A]
            = [''a/x'', ''b'']" by code_simp
  have g2: "GetChangedFiles sampleGit ''main'' True ''/ws'' = Inr [''a/x'', ''b'']"
    using C10_changed_files_parse
      [of "[CHR ''a'', CHR ''/'', CHR ''x'', CHR 0x0A, CHR ''b'', CHR 0x0A]" sampleGit "''/ws''"
          "''main''" "''c1''"] mb d2 s2
    by simp
  from d1 g1 mb g2 show ?thesis by blast
qed

end
